theory Spec2Isabelle
  imports Main
begin

section \<open>Strings and dictionaries of the Python source\<close>

text \<open>
  A Python \<open>str\<close> is a sequence of Unicode code points; it is modelled as the list of
  its code points. The literals of the source are written out as numbers, and the text
  before each definition names the characters they stand for. Python's integers are
  unbounded: they are modelled as \<open>int\<close> (and as \<open>nat\<close> where they index a list).
\<close>

type_synonym ustr = "nat list"

text \<open>
  A Python \<open>dict\<close> keeps its keys in insertion order and holds each key once: it is
  modelled as an association list. \<open>dict_modify dflt k f d\<close> is the access
  \<open>d[k] = f(d[k])\<close> on a \<open>defaultdict\<close> whose factory returns \<open>dflt\<close>: an
  absent key is first inserted (at the end) with the default value.
\<close>

fun dict_modify :: "'v \<Rightarrow> 'k \<Rightarrow> ('v \<Rightarrow> 'v) \<Rightarrow> ('k \<times> 'v) list \<Rightarrow> ('k \<times> 'v) list" where
  "dict_modify dflt k f [] = [(k, f dflt)]"
| "dict_modify dflt k f ((k', v) # d) =
     (if k' = k then (k, f v) # d else (k', v) # dict_modify dflt k f d)"

section \<open>Interaction events\<close>

text \<open>
  The dictionaries appended to \<open>interactions\<close> in \<open>identify_interactions_advanced\<close>
  (lines 72-79): every one of them has the same six keys.
\<close>

record interaction =
  ev_source :: ustr
  ev_target :: ustr
  ev_chapter :: int
  ev_type :: ustr
  ev_context :: ustr
  ev_sentence :: ustr

section \<open>Sentence segmentation and interaction extraction (2_interaction_extraction.py)\<close>

text \<open>\<open>TARGET_CHARACTER\<close> (line 17): the three characters U+859B U+5BF6 U+91F5.\<close>

definition TARGET_CHARACTER :: ustr where
  "TARGET_CHARACTER = [34203, 23542, 37365]"

text \<open>
  The character class of the pattern of \<open>re.split\<close> (line 46): the ideographic full
  stop U+3002, the fullwidth exclamation mark U+FF01, the fullwidth question mark U+FF1F
  and the line feed.
\<close>

definition sentence_delims :: "nat list" where
  "sentence_delims = [12290, 65281, 65311, 10]"

text \<open>
  \<open>re.split\<close> with a pattern that matches exactly one character of a class: the text is
  cut at every such character, and the pieces between two cuts, before the first and after
  the last are all returned, empty or not. The result is never the empty list, so the
  first branch of the \<open>case\<close> is never taken.
\<close>

fun re_split :: "nat list \<Rightarrow> ustr \<Rightarrow> ustr list" where
  "re_split delims [] = [[]]"
| "re_split delims (c # cs) =
     (if c \<in> set delims then [] # re_split delims cs
      else (case re_split delims cs of
              [] \<Rightarrow> [[c]]
            | s # ss \<Rightarrow> (c # s) # ss))"

text \<open>Python's \<open>v in s\<close> on strings: \<open>v\<close> occurs in \<open>s\<close> as a contiguous substring.\<close>

fun startswith :: "'a list \<Rightarrow> 'a list \<Rightarrow> bool" where
  "startswith s [] = True"
| "startswith [] (p # ps) = False"
| "startswith (c # cs) (p # ps) = (c = p \<and> startswith cs ps)"

fun str_contains :: "'a list \<Rightarrow> 'a list \<Rightarrow> bool" where
  "str_contains [] v = (v = [])"
| "str_contains (c # cs) v = (startswith (c # cs) v \<or> str_contains cs v)"

text \<open>\<open>any(word in sentence for word in words)\<close>.\<close>

definition any_in :: "ustr list \<Rightarrow> ustr \<Rightarrow> bool" where
  "any_in words sentence = list_ex (\<lambda>word. str_contains sentence word) words"

text \<open>
  The keyword lists of lines 63 and 65, every keyword a single character:
  U+9053 U+8AAA U+554F U+7B54 U+56DE U+7B11 U+53EB U+52F8 U+7F75 (speech acts) and
  U+898B U+9047 U+8A2A U+4F86 U+53BB U+9001 U+7D66 U+62C9 U+63A8 (physical actions).
\<close>

definition dialogue_words :: "ustr list" where
  "dialogue_words =
     [[36947], [35498], [21839], [31572], [22238], [31505], [21483], [21240], [32629]]"

definition action_words :: "ustr list" where
  "action_words =
     [[35211], [36935], [35370], [20358], [21435], [36865], [32102], [25289], [25512]]"

text \<open>
  The three type names of lines 62, 64 and 66: U+5BF9 U+8BDD (dialogue),
  U+884C U+4E3A (action) and U+5171 U+540C U+51FA U+73B0 (co-occurrence).
\<close>

definition TYPE_DIALOGUE :: ustr where
  "TYPE_DIALOGUE = [23545, 35805]"

definition TYPE_ACTION :: ustr where
  "TYPE_ACTION = [34892, 20026]"

definition TYPE_COOCCURRENCE :: ustr where
  "TYPE_COOCCURRENCE = [20849, 21516, 20986, 29616]"

text \<open>
  Lines 62-66: the value of \<open>interaction_type\<close> after the \<open>if\<close>/\<open>elif\<close>; it keeps its
  initial value, the co-occurrence name, when neither test succeeds.
\<close>

definition interaction_type :: "ustr \<Rightarrow> ustr" where
  "interaction_type sentence =
     (if any_in dialogue_words sentence then TYPE_DIALOGUE
      else if any_in action_words sentence then TYPE_ACTION
      else TYPE_COOCCURRENCE)"

text \<open>
  \<open>xs[lo:hi]\<close> for bounds with \<open>0 \<le> lo\<close> and \<open>0 \<le> hi \<le> len(xs)\<close>, the only ones line 69
  produces, and \<open>sep.join(xs)\<close>.
\<close>

definition py_slice :: "'a list \<Rightarrow> int \<Rightarrow> int \<Rightarrow> 'a list" where
  "py_slice xs lo hi = take (nat hi - nat lo) (drop (nat lo) xs)"

fun join :: "'a list \<Rightarrow> 'a list list \<Rightarrow> 'a list" where
  "join sep [] = []"
| "join sep [x] = x"
| "join sep (x # y # ys) = x @ sep @ join sep (y # ys)"

text \<open>Lines 69-70: the context of the sentence at \<open>sentence_idx\<close>, joined with U+3002.\<close>

definition context_of :: "ustr list \<Rightarrow> nat \<Rightarrow> ustr" where
  "context_of sentences sentence_idx =
     (let context_sentences =
            py_slice sentences (max 0 (int sentence_idx - 1))
                     (min (int (length sentences)) (int sentence_idx + 2))
      in join [12290] context_sentences)"

text \<open>
  The inner loop, lines 55-79, over the items of \<open>other_characters_dict\<close> in their
  order: the events it appends for one sentence.
\<close>

fun character_loop ::
  "ustr list \<Rightarrow> int \<Rightarrow> nat \<Rightarrow> ustr \<Rightarrow> (ustr \<times> ustr list) list \<Rightarrow> interaction list" where
  "character_loop sentences chapter_num sentence_idx sentence [] = []"
| "character_loop sentences chapter_num sentence_idx sentence ((char_name, char_variants) # items) =
     (if char_name = TARGET_CHARACTER
      then character_loop sentences chapter_num sentence_idx sentence items
      else if any_in char_variants sentence
      then \<lparr>ev_source = TARGET_CHARACTER, ev_target = char_name, ev_chapter = chapter_num,
            ev_type = interaction_type sentence,
            ev_context = context_of sentences sentence_idx,
            ev_sentence = sentence\<rparr>
           # character_loop sentences chapter_num sentence_idx sentence items
      else character_loop sentences chapter_num sentence_idx sentence items)"

text \<open>The body of the outer loop, lines 49-79: the events one sentence contributes.\<close>

definition sentence_events ::
  "ustr list \<Rightarrow> ustr list \<Rightarrow> (ustr \<times> ustr list) list \<Rightarrow> int \<Rightarrow> nat \<Rightarrow> ustr \<Rightarrow> interaction list" where
  "sentence_events sentences target_variants other_characters_dict chapter_num sentence_idx sentence =
     (let has_target = any_in target_variants sentence in
      if \<not> has_target then []
      else character_loop sentences chapter_num sentence_idx sentence other_characters_dict)"

text \<open>The outer loop over \<open>enumerate(sentences)\<close>, from index \<open>i\<close> on.\<close>

fun sentence_loop ::
  "ustr list \<Rightarrow> ustr list \<Rightarrow> (ustr \<times> ustr list) list \<Rightarrow> int \<Rightarrow> nat \<Rightarrow> ustr list \<Rightarrow> interaction list" where
  "sentence_loop sentences target_variants other_characters_dict chapter_num i [] = []"
| "sentence_loop sentences target_variants other_characters_dict chapter_num i (sentence # rest) =
     sentence_events sentences target_variants other_characters_dict chapter_num i sentence
     @ sentence_loop sentences target_variants other_characters_dict chapter_num (Suc i) rest"

definition identify_interactions_advanced ::
  "ustr \<Rightarrow> ustr list \<Rightarrow> (ustr \<times> ustr list) list \<Rightarrow> int \<Rightarrow> interaction list" where
  "identify_interactions_advanced text target_variants other_characters_dict chapter_num =
     (let sentences = re_split sentence_delims text
      in sentence_loop sentences target_variants other_characters_dict chapter_num 0 sentences)"

text \<open>
  The classification as the specification words it: the first category, in the order
  dialogue, action, co-occurrence, one of whose keywords occurs in the sentence.
\<close>

definition speech_act_keywords :: "nat set" where
  "speech_act_keywords = {36947, 35498, 21839, 31572, 22238, 31505, 21483, 21240, 32629}"

definition physical_action_keywords :: "nat set" where
  "physical_action_keywords = {35211, 36935, 35370, 20358, 21435, 36865, 32102, 25289, 25512}"

datatype InteractionType = Dialogue | Action | CoOccurrence

definition type_name :: "InteractionType \<Rightarrow> ustr" where
  "type_name t = (case t of Dialogue \<Rightarrow> TYPE_DIALOGUE | Action \<Rightarrow> TYPE_ACTION
                  | CoOccurrence \<Rightarrow> TYPE_COOCCURRENCE)"

definition classify_spec :: "ustr \<Rightarrow> InteractionType" where
  "classify_spec sentence =
     (if set sentence \<inter> speech_act_keywords \<noteq> {} then Dialogue
      else if set sentence \<inter> physical_action_keywords \<noteq> {} then Action
      else CoOccurrence)"

text \<open>
  Putting a text together again from its pieces and the delimiters that stood between
  them: piece, delimiter, piece, ..., piece.
\<close>

fun weave :: "'a list list \<Rightarrow> 'a list \<Rightarrow> 'a list" where
  "weave [] ds = []"
| "weave (s # ss) [] = s"
| "weave (s # ss) (d # ds) = s @ d # weave ss ds"

section \<open>The aggregation loop (2_interaction_extraction.py)\<close>

text \<open>The value the factory of \<open>interaction_dict\<close> returns (lines 121-126).\<close>

record agg_data =
  d_count :: int
  d_types :: "(ustr \<times> int) list"
  d_chapters :: "int set"
  d_contexts :: "ustr list"

definition default_data :: agg_data where
  "default_data = \<lparr>d_count = 0, d_types = [], d_chapters = {}, d_contexts = []\<rparr>"

type_synonym interaction_dict = "((ustr \<times> ustr) \<times> agg_data) list"

definition ev_key :: "interaction \<Rightarrow> ustr \<times> ustr" where
  "ev_key e = (ev_source e, ev_target e)"

text \<open>
  One iteration of the loop of \<open>main\<close>, lines 128-134, one access to
  \<open>interaction_dict[key]\<close> per statement as in the source. Every event has the key
  \<open>'context'\<close>, so \<open>interaction.get('context', ...)\<close> is its context.
\<close>

definition aggregate_step :: "interaction_dict \<Rightarrow> interaction \<Rightarrow> interaction_dict" where
  "aggregate_step d e =
     (let key = (ev_source e, ev_target e);
          d1 = dict_modify default_data key (\<lambda>a. a\<lparr>d_count := d_count a + 1\<rparr>) d;
          d2 = dict_modify default_data key
                 (\<lambda>a. a\<lparr>d_types := dict_modify 0 (ev_type e) (\<lambda>n. n + 1) (d_types a)\<rparr>) d1;
          d3 = dict_modify default_data key
                 (\<lambda>a. a\<lparr>d_chapters := insert (ev_chapter e) (d_chapters a)\<rparr>) d2;
          d4 = dict_modify default_data key
                 (\<lambda>a. if length (d_contexts a) < 3
                      then a\<lparr>d_contexts := d_contexts a @ [ev_context e]\<rparr> else a) d3
      in d4)"

definition aggregate :: "interaction list \<Rightarrow> interaction_dict" where
  "aggregate all_interactions = foldl aggregate_step [] all_interactions"

text \<open>The events of a stream that belong to one (source, target) key, in stream order.\<close>

definition events_of :: "ustr \<times> ustr \<Rightarrow> interaction list \<Rightarrow> interaction list" where
  "events_of k evs = filter (\<lambda>e. ev_key e = k) evs"

text \<open>The histogram a sequence of type names builds up in a \<open>defaultdict(int)\<close>.\<close>

definition histogram :: "ustr list \<Rightarrow> (ustr \<times> int) list" where
  "histogram ts = foldl (\<lambda>h t. dict_modify 0 t (\<lambda>n. n + 1) h) [] ts"

text \<open>The whole iteration is one update of the entry of the event's key.\<close>

definition absorb :: "interaction \<Rightarrow> agg_data \<Rightarrow> agg_data" where
  "absorb e a =
     \<lparr>d_count = d_count a + 1,
      d_types = dict_modify 0 (ev_type e) (\<lambda>n. n + 1) (d_types a),
      d_chapters = insert (ev_chapter e) (d_chapters a),
      d_contexts = (if length (d_contexts a) < 3 then d_contexts a @ [ev_context e]
                    else d_contexts a)\<rparr>"

text \<open>The entry the loop has built for a key, in terms of the events of that key.\<close>

definition summary :: "interaction list \<Rightarrow> agg_data" where
  "summary es =
     \<lparr>d_count = int (length es),
      d_types = histogram (map ev_type es),
      d_chapters = set (map ev_chapter es),
      d_contexts = take 3 (map ev_context es)\<rparr>"

section \<open>The graph builder (3_network_analysis.py, 4_advanced_network_analysis.py)\<close>

text \<open>
  A row of the interaction table, with the three columns the graph builder reads.
\<close>

record row =
  Source :: ustr
  Target :: ustr
  Frequency :: int

text \<open>
  A \<open>networkx.DiGraph\<close>: its nodes in insertion order and its edges, keyed by
  (source, target), in insertion order. Every edge of this program is created by
  \<open>add_edge(u, v, weight=w)\<close>, so the attribute dictionary of an edge is its weight.
\<close>

record digraph =
  g_nodes :: "ustr list"
  g_edges :: "((ustr \<times> ustr) \<times> int) list"

definition empty_graph :: digraph where
  "empty_graph = \<lparr>g_nodes = [], g_edges = []\<rparr>"

definition has_node :: "digraph \<Rightarrow> ustr \<Rightarrow> bool" where
  "has_node G n = (n \<in> set (g_nodes G))"

definition has_edge :: "digraph \<Rightarrow> ustr \<Rightarrow> ustr \<Rightarrow> bool" where
  "has_edge G u v = ((u, v) \<in> set (map fst (g_edges G)))"

definition add_node :: "ustr \<Rightarrow> ustr list \<Rightarrow> ustr list" where
  "add_node n ns = (if n \<in> set ns then ns else ns @ [n])"

text \<open>
  \<open>G.add_edge(u, v, weight=w)\<close>: both end points become nodes if they are not, and the
  edge gets the weight, a new edge going last. Nothing is checked: \<open>u = v\<close> is accepted.
\<close>

definition add_edge :: "digraph \<Rightarrow> ustr \<Rightarrow> ustr \<Rightarrow> int \<Rightarrow> digraph" where
  "add_edge G u v w =
     \<lparr>g_nodes = add_node v (add_node u (g_nodes G)),
      g_edges = dict_modify w (u, v) (\<lambda>_. w) (g_edges G)\<rparr>"

text \<open>\<open>G[u][v]['weight'] += w\<close> on an edge that exists.\<close>

definition add_weight :: "digraph \<Rightarrow> ustr \<Rightarrow> ustr \<Rightarrow> int \<Rightarrow> digraph" where
  "add_weight G u v w =
     G\<lparr>g_edges := map (\<lambda>(k, x). if k = (u, v) then (k, x + w) else (k, x)) (g_edges G)\<rparr>"

text \<open>The loop of \<open>build_network\<close>, lines 36-44, and the function.\<close>

fun build_loop :: "digraph \<Rightarrow> row list \<Rightarrow> digraph" where
  "build_loop G [] = G"
| "build_loop G (row # rows) =
     (let source = Source row; target = Target row; weight = Frequency row
      in build_loop (if has_edge G source target then add_weight G source target weight
                     else add_edge G source target weight) rows)"

definition build_network :: "row list \<Rightarrow> digraph" where
  "build_network df_interactions = build_loop empty_graph df_interactions"

text \<open>
  The graph \<open>load_data\<close> of 4_advanced_network_analysis.py builds (lines 34-39) from the
  table it has read.
\<close>

fun load_data_loop :: "digraph \<Rightarrow> row list \<Rightarrow> digraph" where
  "load_data_loop G [] = G"
| "load_data_loop G (row # rows) =
     load_data_loop
       (if has_edge G (Source row) (Target row)
        then add_weight G (Source row) (Target row) (Frequency row)
        else add_edge G (Source row) (Target row) (Frequency row)) rows"

definition load_data_graph :: "row list \<Rightarrow> digraph" where
  "load_data_graph df_interactions = load_data_loop empty_graph df_interactions"

text \<open>The weight of the edge of a key, if the graph has one.\<close>

definition edge_weight :: "digraph \<Rightarrow> ustr \<times> ustr \<Rightarrow> int option" where
  "edge_weight G k = map_of (g_edges G) k"

text \<open>The rows of a table with a given key, and the sum of their frequencies.\<close>

definition rows_of :: "ustr \<times> ustr \<Rightarrow> row list \<Rightarrow> row list" where
  "rows_of k rows = filter (\<lambda>r. (Source r, Target r) = k) rows"

definition total_frequency :: "row list \<Rightarrow> int" where
  "total_frequency rows = sum_list (map Frequency rows)"

section \<open>The metrics engine (3_network_analysis.py)\<close>

datatype error =
    NetworkXError  \<comment> \<open>raised by \<open>G.neighbors(n)\<close> for a node that is not in the graph\<close>
  | KeyError       \<comment> \<open>raised by \<open>G[u][v]\<close> when there is no such edge\<close>
  | MetricFailure  \<comment> \<open>any exception raised inside a centrality routine of the library\<close>

text \<open>
  \<open>G[n]\<close>, the successors of a node with the weights of the edges to them, in insertion
  order; \<open>G.neighbors(n)\<close>, which raises for a node that is not in the graph;
  \<open>G[u][v]['weight']\<close>; and the in- and out-degree of a node.
\<close>

definition adj :: "digraph \<Rightarrow> ustr \<Rightarrow> (ustr \<times> int) list" where
  "adj G n = map (\<lambda>((u, v), w). (v, w)) (filter (\<lambda>((u, v), w). u = n) (g_edges G))"

definition neighbors :: "digraph \<Rightarrow> ustr \<Rightarrow> error + ustr list" where
  "neighbors G n = (if has_node G n then Inr (map fst (adj G n)) else Inl NetworkXError)"

definition weight_of :: "digraph \<Rightarrow> ustr \<Rightarrow> ustr \<Rightarrow> error + int" where
  "weight_of G u v = (case map_of (adj G u) v of None \<Rightarrow> Inl KeyError | Some w \<Rightarrow> Inr w)"

definition in_degree :: "digraph \<Rightarrow> ustr \<Rightarrow> int" where
  "in_degree G n = int (length (filter (\<lambda>((u, v), w). v = n) (g_edges G)))"

definition out_degree :: "digraph \<Rightarrow> ustr \<Rightarrow> int" where
  "out_degree G n = int (length (filter (\<lambda>((u, v), w). u = n) (g_edges G)))"

text \<open>
  \<open>sum([G[n][neighbor]['weight'] for neighbor in nbrs])\<close>: the first lookup that raises
  ends the comprehension.
\<close>

fun sum_weights :: "digraph \<Rightarrow> ustr \<Rightarrow> ustr list \<Rightarrow> error + int" where
  "sum_weights G n [] = Inr 0"
| "sum_weights G n (neighbor # nbrs) =
     (case weight_of G n neighbor of
        Inl e \<Rightarrow> Inl e
      | Inr w \<Rightarrow> (case sum_weights G n nbrs of Inl e \<Rightarrow> Inl e | Inr s \<Rightarrow> Inr (w + s)))"

text \<open>Lines 69-70: the iterable \<open>G.neighbors(target_char)\<close> is evaluated first.\<close>

definition weighted_degree :: "digraph \<Rightarrow> ustr \<Rightarrow> error + int" where
  "weighted_degree G n =
     (case neighbors G n of Inl e \<Rightarrow> Inl e | Inr nbrs \<Rightarrow> sum_weights G n nbrs)"

text \<open>
  The centrality routines of the library are parameters of the model: each takes the graph
  and either raises or returns a dictionary from nodes to scores. The scores are of a
  type \<open>'r\<close> with a zero, which stands for Python's floating-point numbers.
\<close>

record 'r nx_lib =
  degree_centrality :: "digraph \<Rightarrow> error + (ustr \<rightharpoonup> 'r)"
  betweenness_centrality :: "digraph \<Rightarrow> error + (ustr \<rightharpoonup> 'r)"
  closeness_centrality :: "digraph \<Rightarrow> error + (ustr \<rightharpoonup> 'r)"
  eigenvector_centrality :: "digraph \<Rightarrow> error + (ustr \<rightharpoonup> 'r)"
  pagerank :: "digraph \<Rightarrow> error + (ustr \<rightharpoonup> 'r)"
  clustering :: "digraph \<Rightarrow> error + (ustr \<rightharpoonup> 'r)"

text \<open>\<open>d.get(k, 0)\<close>.\<close>

definition get0 :: "('k \<rightharpoonup> 'r::zero) \<Rightarrow> 'k \<Rightarrow> 'r" where
  "get0 d k = (case d k of None \<Rightarrow> 0 | Some x \<Rightarrow> x)"

text \<open>
  \<open>try: m = routine(G); value = m.get(target_char, 0)\<close> \<open>except: value = 0\<close>, the
  shape of lines 74-106.
\<close>

definition try_metric :: "(digraph \<Rightarrow> error + (ustr \<rightharpoonup> 'r::zero)) \<Rightarrow> digraph \<Rightarrow> ustr \<Rightarrow> 'r" where
  "try_metric routine G target_char =
     (case routine G of Inl e \<Rightarrow> 0 | Inr m \<Rightarrow> get0 m target_char)"

record 'r metrics =
  m_degree_centrality :: 'r
  m_in_degree :: int
  m_out_degree :: int
  m_total_degree :: int
  m_weighted_degree :: int
  m_betweenness_centrality :: 'r
  m_closeness_centrality :: 'r
  m_eigenvector_centrality :: 'r
  m_pagerank :: 'r
  m_clustering_coefficient :: 'r

text \<open>
  \<open>calculate_centrality_metrics\<close>, lines 48-108. The call of \<open>degree_centrality\<close>
  (line 53) and the weighted degree (lines 69-70) are outside every \<open>try\<close>: an
  exception there leaves the function.
\<close>

definition calculate_centrality_metrics ::
  "('r::zero) nx_lib \<Rightarrow> digraph \<Rightarrow> ustr \<Rightarrow> error + 'r metrics" where
  "calculate_centrality_metrics lib G target_char =
     (case degree_centrality lib G of
        Inl e \<Rightarrow> Inl e
      | Inr dc \<Rightarrow>
         (let (in_deg, out_deg, total_degree) =
                (if has_node G target_char
                 then (in_degree G target_char, out_degree G target_char,
                       in_degree G target_char + out_degree G target_char)
                 else (0, 0, 0))
          in case weighted_degree G target_char of
               Inl e \<Rightarrow> Inl e
             | Inr wd \<Rightarrow>
                Inr \<lparr>m_degree_centrality = get0 dc target_char,
                     m_in_degree = in_deg,
                     m_out_degree = out_deg,
                     m_total_degree = total_degree,
                     m_weighted_degree = wd,
                     m_betweenness_centrality = try_metric (betweenness_centrality lib) G target_char,
                     m_closeness_centrality = try_metric (closeness_centrality lib) G target_char,
                     m_eigenvector_centrality = try_metric (eigenvector_centrality lib) G target_char,
                     m_pagerank = try_metric (pagerank lib) G target_char,
                     m_clustering_coefficient = try_metric (clustering lib) G target_char\<rparr>))"

text \<open>
  \<open>get_all_centrality_metrics\<close>, lines 110-136. The first loop fills four entries per
  node; the three centralities are computed in one \<open>try\<close> (lines 124-134), whose
  \<open>except\<close> clause does nothing, so that they are added for every node or for none.
\<close>

record 'r node_metrics =
  nm_degree :: int
  nm_in_degree :: int
  nm_out_degree :: int
  nm_weighted_degree :: int
  nm_centralities :: "('r \<times> 'r \<times> 'r) option"

fun node_loop :: "digraph \<Rightarrow> ustr list \<Rightarrow> error + (ustr \<times> 'r node_metrics) list" where
  "node_loop G [] = Inr []"
| "node_loop G (node # nodes) =
     (case weighted_degree G node of
        Inl e \<Rightarrow> Inl e
      | Inr wd \<Rightarrow>
         (case node_loop G nodes of
            Inl e \<Rightarrow> Inl e
          | Inr ms \<Rightarrow>
             Inr ((node, \<lparr>nm_degree = in_degree G node + out_degree G node,
                          nm_in_degree = in_degree G node,
                          nm_out_degree = out_degree G node,
                          nm_weighted_degree = wd,
                          nm_centralities = None\<rparr>) # ms)))"

definition get_all_centrality_metrics ::
  "('r::zero) nx_lib \<Rightarrow> digraph \<Rightarrow> error + (ustr \<times> 'r node_metrics) list" where
  "get_all_centrality_metrics lib G =
     (case node_loop G (g_nodes G) of
        Inl e \<Rightarrow> Inl e
      | Inr all_metrics \<Rightarrow>
         (case (degree_centrality lib G, betweenness_centrality lib G, closeness_centrality lib G) of
            (Inr degree_cent, Inr betweenness, Inr closeness) \<Rightarrow>
               Inr (map (\<lambda>(node, m).
                      (node, m\<lparr>nm_centralities :=
                                 Some (get0 degree_cent node, get0 betweenness node,
                                       get0 closeness node)\<rparr>)) all_metrics)
          | _ \<Rightarrow> Inr all_metrics))"

section \<open>Sample inputs\<close>

text \<open>
  A small event stream: four events of the key (focal character, \<open>A\<close>) with four
  different contexts and three different types, and one event of the key
  (focal character, \<open>B\<close>) between them.
\<close>

definition sample_event :: "ustr \<Rightarrow> int \<Rightarrow> ustr \<Rightarrow> nat \<Rightarrow> interaction" where
  "sample_event tgt ch ty c =
     \<lparr>ev_source = TARGET_CHARACTER, ev_target = tgt, ev_chapter = ch, ev_type = ty,
      ev_context = [c, 12290, c], ev_sentence = [c]\<rparr>"

definition sample_events :: "interaction list" where
  "sample_events =
     [sample_event [65] 3 TYPE_DIALOGUE 1,
      sample_event [65] 3 TYPE_DIALOGUE 2,
      sample_event [66] 4 TYPE_ACTION 3,
      sample_event [65] 8 TYPE_ACTION 4,
      sample_event [65] 9 TYPE_COOCCURRENCE 5]"

text \<open>
  A character dictionary with the focal character (one variant, U+91F5) and three others
  \<open>A\<close>, \<open>B\<close>, \<open>C\<close>, and a chapter text of three sentences: \<open>C\<close>, then the focal
  character with \<open>A\<close>, the speech-act keyword U+7B11, the action keyword U+4F86 and
  \<open>B\<close>, then \<open>A\<close>.
\<close>

definition sample_dict :: "(ustr \<times> ustr list) list" where
  "sample_dict = [(TARGET_CHARACTER, [[37365]]), ([65], [[65]]), ([66], [[66]]), ([67], [[67]])]"

definition sample_text :: ustr where
  "sample_text = [67, 12290, 37365, 65, 31505, 20358, 66, 65281, 65]"

text \<open>
  An interaction table in which the key (focal character, \<open>A\<close>) occurs twice, with the
  frequencies 5 and 7; a table with one row from \<open>A\<close> to \<open>A\<close>; and the graph with the one
  node \<open>A\<close> and no edge.
\<close>

definition sample_rows :: "row list" where
  "sample_rows =
     [\<lparr>Source = TARGET_CHARACTER, Target = [65], Frequency = 5\<rparr>,
      \<lparr>Source = TARGET_CHARACTER, Target = [66], Frequency = 2\<rparr>,
      \<lparr>Source = TARGET_CHARACTER, Target = [65], Frequency = 7\<rparr>]"

definition self_loop_rows :: "row list" where
  "self_loop_rows = [\<lparr>Source = [65], Target = [65], Frequency = 3\<rparr>]"

definition single_node_graph :: digraph where
  "single_node_graph = \<lparr>g_nodes = [[65]], g_edges = []\<rparr>"

text \<open>
  A stand-in for the library, with integer scores: the degree centrality of every node
  is 1, two of the routines fail, the others return empty dictionaries.
\<close>

definition sample_lib :: "int nx_lib" where
  "sample_lib =
     \<lparr>degree_centrality = (\<lambda>G. Inr (\<lambda>n. if n \<in> set (g_nodes G) then Some 1 else None)),
      betweenness_centrality = (\<lambda>G. Inl MetricFailure),
      closeness_centrality = (\<lambda>G. Inr (\<lambda>n. None)),
      eigenvector_centrality = (\<lambda>G. Inl MetricFailure),
      pagerank = (\<lambda>G. Inr (\<lambda>n. None)),
      clustering = (\<lambda>G. Inr (\<lambda>n. None))\<rparr>"

section \<open>Properties of the aggregation loop\<close>

lemma map_of_dict_modify:
  "map_of (dict_modify dflt k f d) k' =
     (if k' = k then Some (f (case map_of d k of None \<Rightarrow> dflt | Some v \<Rightarrow> v))
      else map_of d k')"
  by (induction d) auto

lemma dict_modify_twice:
  "dict_modify dflt k g (dict_modify dflt k f d) = dict_modify dflt k (\<lambda>v. g (f v)) d"
  by (induction d) auto

lemma sum_dict_modify_incr:
  "sum_list (map snd (dict_modify 0 t (\<lambda>n. n + 1) h)) = sum_list (map snd h) + (1::int)"
  by (induction h) auto

lemma sum_histogram: "sum_list (map snd (histogram ts)) = int (length ts)"
  by (induction ts rule: rev_induct) (simp_all add: histogram_def sum_dict_modify_incr)

lemma histogram_snoc:
  "histogram (ts @ [t]) = dict_modify 0 t (\<lambda>n. n + 1) (histogram ts)"
  by (simp add: histogram_def)

lemma take3_snoc:
  "take 3 (xs @ [c]) = (if length (take 3 xs) < 3 then take 3 xs @ [c] else take 3 xs)"
  by (cases "length xs < 3") auto

lemma aggregate_step_absorb:
  "aggregate_step d e = dict_modify default_data (ev_key e) (absorb e) d"
proof -
  have "(\<lambda>a. (if length (d_contexts a) < 3
               then a\<lparr>d_contexts := d_contexts a @ [ev_context e]\<rparr> else a))
          \<circ> (\<lambda>a. a\<lparr>d_chapters := insert (ev_chapter e) (d_chapters a)\<rparr>)
          \<circ> (\<lambda>a. a\<lparr>d_types := dict_modify 0 (ev_type e) (\<lambda>n. n + 1) (d_types a)\<rparr>)
          \<circ> (\<lambda>a. a\<lparr>d_count := d_count a + 1\<rparr>) = absorb e"
    by (rule ext) (simp add: absorb_def)
  then show ?thesis
    by (simp add: aggregate_step_def ev_key_def dict_modify_twice comp_def)
qed

lemma summary_snoc: "absorb e (summary es) = summary (es @ [e])"
  by (simp add: absorb_def summary_def histogram_snoc take3_snoc)

lemma summary_Nil: "summary [] = default_data"
  by (simp add: summary_def default_data_def histogram_def)

lemma aggregate_lookup:
  "map_of (aggregate evs) k =
     (if events_of k evs = [] then None else Some (summary (events_of k evs)))"
proof (induction evs rule: rev_induct)
  case Nil
  show ?case by (simp add: aggregate_def events_of_def)
next
  case (snoc e evs)
  have step: "aggregate (evs @ [e]) = dict_modify default_data (ev_key e) (absorb e) (aggregate evs)"
    by (simp add: aggregate_def aggregate_step_absorb)
  show ?case
  proof (cases "ev_key e = k")
    case False
    then show ?thesis using snoc by (simp add: step map_of_dict_modify events_of_def)
  next
    case True
    have ev: "events_of k (evs @ [e]) = events_of k evs @ [e]"
      using True by (simp add: events_of_def)
    show ?thesis
      using snoc True
      by (simp add: step map_of_dict_modify ev summary_snoc summary_Nil [symmetric])
  qed
qed

lemma dict_modify_keys:
  "map fst (dict_modify dflt k f d) =
     (if k \<in> set (map fst d) then map fst d else map fst d @ [k])"
  by (induction d) force+

lemma distinct_dict_modify:
  "distinct (map fst d) \<Longrightarrow> distinct (map fst (dict_modify dflt k f d))"
  by (simp add: dict_modify_keys)

lemma aggregate_keys_distinct: "distinct (map fst (aggregate evs))"
  by (induction evs rule: rev_induct)
     (simp_all add: aggregate_def aggregate_step_absorb distinct_dict_modify)

lemma aggregate_entry:
  "(k, a) \<in> set (aggregate evs) \<longleftrightarrow> events_of k evs \<noteq> [] \<and> a = summary (events_of k evs)"
proof -
  have "(k, a) \<in> set (aggregate evs) \<longleftrightarrow> map_of (aggregate evs) k = Some a"
    using aggregate_keys_distinct [of evs] by simp
  then show ?thesis by (auto simp: aggregate_lookup)
qed

lemma map_of_histogram:
  "map_of (histogram ts) t = (if t \<in> set ts then Some (int (count_list ts t)) else None)"
  by (induction ts rule: rev_induct) (auto simp: histogram_snoc map_of_dict_modify histogram_def)

lemma distinct_histogram: "distinct (map fst (histogram ts))"
  by (induction ts rule: rev_induct) (simp_all add: histogram_snoc distinct_dict_modify histogram_def)

lemma sample_aggregate:
  "aggregate sample_events =
     [((TARGET_CHARACTER, [65]),
       \<lparr>d_count = 4,
        d_types = [(TYPE_DIALOGUE, 2), (TYPE_ACTION, 1), (TYPE_COOCCURRENCE, 1)],
        d_chapters = {3, 8, 9},
        d_contexts = [[1, 12290, 1], [2, 12290, 2], [4, 12290, 4]]\<rparr>),
      ((TARGET_CHARACTER, [66]),
       \<lparr>d_count = 1, d_types = [(TYPE_ACTION, 1)], d_chapters = {4},
        d_contexts = [[3, 12290, 3]]\<rparr>)]"
  by (simp add: aggregate_def aggregate_step_def default_data_def sample_events_def
      sample_event_def TARGET_CHARACTER_def TYPE_DIALOGUE_def TYPE_ACTION_def
      TYPE_COOCCURRENCE_def insert_commute)

text \<open>
  Claim C4. For every event stream and every (source, target) key, the aggregator has an
  entry for the key exactly when the stream has an event with that key, and the frequency
  of the entry is the number of events of the stream whose (source, target) pair is the key.
\<close>

theorem aggregate_frequency:
  "(k \<in> fst ` set (aggregate evs) \<longleftrightarrow> k \<in> (\<lambda>e. (ev_source e, ev_target e)) ` set evs) \<and>
   (\<forall>a. (k, a) \<in> set (aggregate evs) \<longrightarrow>
        d_count a = int (length (filter (\<lambda>e. (ev_source e, ev_target e) = k) evs)))"
proof -
  have ne: "events_of k evs \<noteq> [] \<longleftrightarrow> k \<in> (\<lambda>e. (ev_source e, ev_target e)) ` set evs"
    by (auto simp: events_of_def ev_key_def filter_empty_conv)
  have "k \<in> fst ` set (aggregate evs) \<longleftrightarrow> (\<exists>a. (k, a) \<in> set (aggregate evs))"
    by force
  then have "k \<in> fst ` set (aggregate evs) \<longleftrightarrow> events_of k evs \<noteq> []"
    by (simp add: aggregate_entry)
  with ne show ?thesis
    by (auto simp: aggregate_entry summary_def events_of_def ev_key_def)
qed

theorem aggregate_frequency_witness:
  "(\<exists>a. ((TARGET_CHARACTER, [65]), a) \<in> set (aggregate sample_events) \<and> d_count a = 4) \<and>
   int (length (filter (\<lambda>e. (ev_source e, ev_target e) = (TARGET_CHARACTER, [65])) sample_events)) = 4"
proof -
  have "\<exists>a. ((TARGET_CHARACTER, [65]), a) \<in> set (aggregate sample_events)"
    by (simp add: sample_aggregate)
  then obtain a where a: "((TARGET_CHARACTER, [65]), a) \<in> set (aggregate sample_events)" ..
  have n: "int (length (filter (\<lambda>e. (ev_source e, ev_target e) = (TARGET_CHARACTER, [65]))
             sample_events)) = 4"
    by (simp add: sample_events_def sample_event_def)
  from aggregate_frequency [of "(TARGET_CHARACTER, [65])" sample_events] a n
  have "d_count a = 4" by simp
  with a n show ?thesis by blast
qed

text \<open>
  Claim C5. For every event stream and every key, the contexts stored for the key are at
  most three, and they are the contexts of the first three events of the key (of all of
  them when there are fewer), in the order of the stream. Once three events of the key
  have been seen, no continuation of the stream changes the stored contexts.
\<close>

theorem aggregate_contexts:
  assumes "(k, a) \<in> set (aggregate evs)"
  shows "length (d_contexts a) \<le> 3 \<and>
         d_contexts a =
           take 3 (map ev_context (filter (\<lambda>e. (ev_source e, ev_target e) = k) evs)) \<and>
         (\<forall>later a'. 3 \<le> length (filter (\<lambda>e. (ev_source e, ev_target e) = k) evs) \<and>
                     (k, a') \<in> set (aggregate (evs @ later))
                     \<longrightarrow> d_contexts a' = d_contexts a)"
proof -
  have ev: "events_of k evs = filter (\<lambda>e. (ev_source e, ev_target e) = k) evs" for evs
    by (simp add: events_of_def ev_key_def)
  from assms have a: "d_contexts a = take 3 (map ev_context (events_of k evs))"
    by (simp add: aggregate_entry summary_def)
  have "d_contexts a' = d_contexts a"
    if "3 \<le> length (events_of k evs)" and "(k, a') \<in> set (aggregate (evs @ later))"
    for later a'
  proof -
    from that(2) have "d_contexts a' = take 3 (map ev_context (events_of k (evs @ later)))"
      by (simp add: aggregate_entry summary_def)
    also have "\<dots> = take 3 (map ev_context (events_of k evs))"
      using that(1) by (simp add: events_of_def)
    finally show ?thesis using a by simp
  qed
  with a show ?thesis by (auto simp: ev)
qed

theorem aggregate_contexts_witness:
  "\<exists>a a'. ((TARGET_CHARACTER, [65]), a) \<in> set (aggregate (take 4 sample_events)) \<and>
          ((TARGET_CHARACTER, [65]), a') \<in> set (aggregate (take 4 sample_events @ drop 4 sample_events)) \<and>
          3 \<le> length (filter (\<lambda>e. (ev_source e, ev_target e) = (TARGET_CHARACTER, [65]))
                 (take 4 sample_events)) \<and>
          d_contexts a = [[1, 12290, 1], [2, 12290, 2], [4, 12290, 4]] \<and>
          d_contexts a' = d_contexts a"
proof -
  let ?k = "(TARGET_CHARACTER, [65::nat])"
  have "\<exists>a'. (?k, a') \<in> set (aggregate sample_events)"
    by (simp add: sample_aggregate)
  then obtain a' where a': "(?k, a') \<in> set (aggregate (take 4 sample_events @ drop 4 sample_events))"
    by auto
  have "\<exists>a. (?k, a) \<in> set (aggregate (take 4 sample_events))"
    by (simp add: aggregate_entry events_of_def ev_key_def sample_events_def sample_event_def)
  then obtain a where a: "(?k, a) \<in> set (aggregate (take 4 sample_events))" ..
  have n: "3 \<le> length (filter (\<lambda>e. (ev_source e, ev_target e) = ?k) (take 4 sample_events))"
    by (simp add: sample_events_def sample_event_def)
  note th = aggregate_contexts [OF a]
  from th have c: "d_contexts a = [[1, 12290, 1], [2, 12290, 2], [4, 12290, 4]]"
    by (simp add: sample_events_def sample_event_def)
  from th n a' have "d_contexts a' = d_contexts a" by blast
  with a a' n c show ?thesis by blast
qed

text \<open>
  Claim C10. For every event stream and every key, the values of the type histogram of
  the key add up to its frequency: the histogram has one bucket per type that occurs among
  the events of the key, and the bucket of a type holds the number of those events.
\<close>

theorem aggregate_histogram_total:
  assumes "(k, a) \<in> set (aggregate evs)"
  shows "sum_list (map snd (d_types a)) = d_count a \<and>
         distinct (map fst (d_types a)) \<and>
         (\<forall>t. map_of (d_types a) t =
               (if t \<in> ev_type ` set (filter (\<lambda>e. (ev_source e, ev_target e) = k) evs)
                then Some (int (length (filter (\<lambda>e. (ev_source e, ev_target e) = k \<and> ev_type e = t) evs)))
                else None))"
proof -
  let ?es = "filter (\<lambda>e. (ev_source e, ev_target e) = k) evs"
  have ev: "events_of k evs = ?es"
    by (simp add: events_of_def ev_key_def)
  from assms have a: "a = summary ?es"
    by (simp add: aggregate_entry ev)
  have cnt: "count_list (map ev_type ?es) t =
             length (filter (\<lambda>e. (ev_source e, ev_target e) = k \<and> ev_type e = t) evs)" for t
    by (induction evs) auto
  show ?thesis
    by (simp add: a summary_def sum_histogram distinct_histogram map_of_histogram cnt)
qed

theorem aggregate_histogram_total_witness:
  "\<exists>a. ((TARGET_CHARACTER, [65]), a) \<in> set (aggregate sample_events) \<and>
        d_types a = [(TYPE_DIALOGUE, 2), (TYPE_ACTION, 1), (TYPE_COOCCURRENCE, 1)] \<and>
        sum_list (map snd (d_types a)) = 4 \<and> d_count a = 4"
proof -
  let ?k = "(TARGET_CHARACTER, [65::nat])"
  let ?a = "\<lparr>d_count = 4,
        d_types = [(TYPE_DIALOGUE, 2), (TYPE_ACTION, 1), (TYPE_COOCCURRENCE, 1)],
        d_chapters = {3, 8, 9},
        d_contexts = [[1, 12290, 1], [2, 12290, 2], [4, 12290, 4]]\<rparr>"
  have a: "(?k, ?a) \<in> set (aggregate sample_events)"
    by (simp add: sample_aggregate)
  from aggregate_histogram_total [OF a] have "sum_list (map snd (d_types ?a)) = d_count ?a"
    by blast
  with a show ?thesis by (intro exI [of _ ?a]) simp
qed

section \<open>Properties of the extractor\<close>

lemma startswith_iff: "startswith s v \<longleftrightarrow> (\<exists>ss. s = v @ ss)"
  by (induction s v rule: startswith.induct) auto

lemma str_contains_iff: "str_contains s v \<longleftrightarrow> (\<exists>ps ss. s = ps @ v @ ss)"
proof (induction s)
  case Nil
  show ?case by simp
next
  case (Cons c cs)
  have "(\<exists>ps ss. c # cs = ps @ v @ ss) \<longleftrightarrow>
        (\<exists>ss. c # cs = v @ ss) \<or> (\<exists>ps ss. cs = ps @ v @ ss)"
  proof
    assume "\<exists>ps ss. c # cs = ps @ v @ ss"
    then obtain ps ss where eq: "c # cs = ps @ v @ ss" by blast
    show "(\<exists>ss. c # cs = v @ ss) \<or> (\<exists>ps ss. cs = ps @ v @ ss)"
    proof (cases ps)
      case Nil
      with eq show ?thesis by auto
    next
      case (Cons p ps')
      with eq have "cs = ps' @ v @ ss" by simp
      then show ?thesis by blast
    qed
  next
    assume "(\<exists>ss. c # cs = v @ ss) \<or> (\<exists>ps ss. cs = ps @ v @ ss)"
    then show "\<exists>ps ss. c # cs = ps @ v @ ss"
    proof
      assume "\<exists>ss. c # cs = v @ ss"
      then obtain ss where "c # cs = [] @ v @ ss" by auto
      then show ?thesis by blast
    next
      assume "\<exists>ps ss. cs = ps @ v @ ss"
      then obtain ps ss where "c # cs = (c # ps) @ v @ ss" by auto
      then show ?thesis by blast
    qed
  qed
  with Cons show ?case by (simp add: startswith_iff)
qed

lemma str_contains_single: "str_contains s [c] \<longleftrightarrow> c \<in> set s"
  by (induction s) (auto simp: startswith_iff)

lemma any_in_singles: "any_in (map (\<lambda>c. [c]) cs) s \<longleftrightarrow> set s \<inter> set cs \<noteq> {}"
  by (auto simp: any_in_def list_ex_iff str_contains_single)

lemma any_in_dialogue: "any_in dialogue_words s \<longleftrightarrow> set s \<inter> speech_act_keywords \<noteq> {}"
proof -
  have a: "dialogue_words =
        map (\<lambda>c. [c]) [36947, 35498, 21839, 31572, 22238, 31505, 21483, 21240, 32629]"
    by (simp add: dialogue_words_def)
  have b: "speech_act_keywords =
        set [36947, 35498, 21839, 31572, 22238, 31505, 21483, 21240, 32629]"
    by (simp add: speech_act_keywords_def)
  show ?thesis unfolding a b by (rule any_in_singles)
qed

lemma any_in_action: "any_in action_words s \<longleftrightarrow> set s \<inter> physical_action_keywords \<noteq> {}"
proof -
  have a: "action_words =
        map (\<lambda>c. [c]) [35211, 36935, 35370, 20358, 21435, 36865, 32102, 25289, 25512]"
    by (simp add: action_words_def)
  have b: "physical_action_keywords =
        set [35211, 36935, 35370, 20358, 21435, 36865, 32102, 25289, 25512]"
    by (simp add: physical_action_keywords_def)
  show ?thesis unfolding a b by (rule any_in_singles)
qed

lemma interaction_type_spec: "interaction_type s = type_name (classify_spec s)"
  by (simp add: interaction_type_def classify_spec_def type_name_def any_in_dialogue any_in_action)

lemma character_loop_sentence:
  "e \<in> set (character_loop ss ch i s d) \<Longrightarrow> ev_type e = interaction_type s \<and> ev_sentence e = s"
  by (induction d) (auto split: if_splits)

lemma sentence_loop_sentence:
  "e \<in> set (sentence_loop ss tv d ch i xs) \<Longrightarrow> ev_type e = interaction_type (ev_sentence e)"
  by (induction xs arbitrary: i)
     (auto simp: sentence_events_def Let_def dest: character_loop_sentence split: if_splits)

lemma type_names_distinct:
  "TYPE_DIALOGUE \<noteq> TYPE_ACTION" "TYPE_DIALOGUE \<noteq> TYPE_COOCCURRENCE"
  "TYPE_ACTION \<noteq> TYPE_COOCCURRENCE"
  by (simp_all add: TYPE_DIALOGUE_def TYPE_ACTION_def TYPE_COOCCURRENCE_def)

text \<open>
  Claim C6. The interaction type is a total function of the sentence text, evaluated in a
  fixed order: Dialogue if the sentence contains a speech-act keyword; otherwise Action if
  it contains a physical-action keyword; otherwise CoOccurrence. This is the type of every
  event the extractor emits, as a function of the event's sentence. In particular a
  sentence with both a speech-act and a physical-action keyword is a Dialogue.
\<close>

theorem classification_priority:
  "interaction_type sentence =
     (if \<exists>c \<in> set sentence. c \<in> speech_act_keywords then TYPE_DIALOGUE
      else if \<exists>c \<in> set sentence. c \<in> physical_action_keywords then TYPE_ACTION
      else TYPE_COOCCURRENCE) \<and>
   interaction_type sentence = type_name (classify_spec sentence) \<and>
   (\<forall>e \<in> set (identify_interactions_advanced text target_variants other_characters_dict chapter_num).
      ev_type e = type_name (classify_spec (ev_sentence e))) \<and>
   (\<forall>a b. a \<in> speech_act_keywords \<and> b \<in> physical_action_keywords \<and>
          a \<in> set sentence \<and> b \<in> set sentence \<longrightarrow> interaction_type sentence = TYPE_DIALOGUE)"
proof -
  have 1: "interaction_type sentence = type_name (classify_spec sentence)"
    by (rule interaction_type_spec)
  have 2: "type_name (classify_spec sentence) =
     (if \<exists>c \<in> set sentence. c \<in> speech_act_keywords then TYPE_DIALOGUE
      else if \<exists>c \<in> set sentence. c \<in> physical_action_keywords then TYPE_ACTION
      else TYPE_COOCCURRENCE)"
    by (auto simp: classify_spec_def type_name_def)
  have 3: "ev_type e = type_name (classify_spec (ev_sentence e))"
    if "e \<in> set (identify_interactions_advanced text target_variants other_characters_dict chapter_num)"
    for e
    using that sentence_loop_sentence
    by (auto simp: identify_interactions_advanced_def Let_def interaction_type_spec [symmetric])
  from 1 2 3 show ?thesis by auto
qed

theorem classification_priority_witness:
  "31505 \<in> speech_act_keywords \<and> 20358 \<in> physical_action_keywords \<and>
   31505 \<in> set [37365, 65, 31505, 20358, 66] \<and> 20358 \<in> set [37365, 65, 31505, 20358, 66] \<and>
   interaction_type [37365, 65, 31505, 20358, 66] = TYPE_DIALOGUE \<and>
   map ev_type (identify_interactions_advanced sample_text [[37365]] sample_dict 5) =
     [TYPE_DIALOGUE, TYPE_DIALOGUE]"
proof -
  have ev: "identify_interactions_advanced sample_text [[37365]] sample_dict 5 =
     [\<lparr>ev_source = TARGET_CHARACTER, ev_target = [65], ev_chapter = 5, ev_type = TYPE_DIALOGUE,
       ev_context = [67, 12290, 37365, 65, 31505, 20358, 66, 12290, 65],
       ev_sentence = [37365, 65, 31505, 20358, 66]\<rparr>,
      \<lparr>ev_source = TARGET_CHARACTER, ev_target = [66], ev_chapter = 5, ev_type = TYPE_DIALOGUE,
       ev_context = [67, 12290, 37365, 65, 31505, 20358, 66, 12290, 65],
       ev_sentence = [37365, 65, 31505, 20358, 66]\<rparr>]"
    by (simp add: identify_interactions_advanced_def sample_text_def sample_dict_def
        sentence_delims_def sentence_events_def any_in_def TARGET_CHARACTER_def
        interaction_type_def dialogue_words_def context_of_def py_slice_def
        numeral_2_eq_2 numeral_3_eq_3)
  have k: "31505 \<in> speech_act_keywords" "20358 \<in> physical_action_keywords"
    by (simp_all add: speech_act_keywords_def physical_action_keywords_def)
  from classification_priority [of "[37365, 65, 31505, 20358, 66]" sample_text "[[37365]]" sample_dict 5] k
  have "interaction_type [37365, 65, 31505, 20358, 66] = TYPE_DIALOGUE"
    by (simp add: k)
  with k show ?thesis by (simp add: ev)
qed

lemma character_loop_filter:
  "character_loop ss ch i s d =
     map (\<lambda>(name, vs).
            \<lparr>ev_source = TARGET_CHARACTER, ev_target = name, ev_chapter = ch,
             ev_type = interaction_type s, ev_context = context_of ss i, ev_sentence = s\<rparr>)
         (filter (\<lambda>(name, vs). name \<noteq> TARGET_CHARACTER \<and> any_in vs s) d)"
proof (induction d)
  case Nil
  show ?case by simp
next
  case (Cons p d)
  obtain name vs where p: "p = (name, vs)" by (cases p)
  show ?case unfolding p using Cons by simp
qed

lemma sentence_loop_append:
  "sentence_loop ss tv d ch i (xs @ ys) =
     sentence_loop ss tv d ch i xs @ sentence_loop ss tv d ch (i + length xs) ys"
  by (induction xs arbitrary: i) simp_all

lemma slice_nth:
  "hi \<le> length xs \<Longrightarrow> take (hi - lo) (drop lo xs) = map ((!) xs) [lo..<hi]"
  by (rule nth_equalityI) auto

lemma context_of_range:
  assumes "i < length ss"
  shows "context_of ss i = join [12290] (map ((!) ss) [i - 1 ..< min (length ss) (i + 2)])"
proof -
  have lo: "nat (max 0 (int i - 1)) = i - 1" by auto
  have hi: "nat (min (int (length ss)) (int i + 2)) = min (length ss) (i + 2)" by auto
  show ?thesis
    by (simp only: context_of_def Let_def py_slice_def lo hi) (simp add: slice_nth)
qed

text \<open>
  Claim C7. When the sentence at index \<open>i\<close> of the segmented text mentions the focal
  character and exactly two other entries \<open>c1\<close>, \<open>c2\<close> of the character dictionary (whose
  keys are distinct), the events of the extractor are those of the sentences before \<open>i\<close>,
  then exactly two events for the sentence, then those of the sentences after \<open>i\<close>. The
  two events differ in their target only, \<open>c1\<close> and \<open>c2\<close>, which are different, and they
  have the same context: the sentences at the indices from \<open>i - 1\<close> up to, not including,
  \<open>i + 2\<close>, clipped to the bounds of the sequence and joined with the full stop U+3002.
\<close>

theorem two_others_two_events:
  assumes "sentences = re_split sentence_delims text"
    and "i < length sentences"
    and "any_in target_variants (sentences ! i)"
    and "distinct (map fst other_characters_dict)"
    and "map fst (filter (\<lambda>(name, vs). name \<noteq> TARGET_CHARACTER \<and> any_in vs (sentences ! i))
                   other_characters_dict) = [c1, c2]"
  shows "identify_interactions_advanced text target_variants other_characters_dict chapter_num =
           sentence_loop sentences target_variants other_characters_dict chapter_num 0
             (take i sentences)
           @ [\<lparr>ev_source = TARGET_CHARACTER, ev_target = c1, ev_chapter = chapter_num,
                ev_type = interaction_type (sentences ! i),
                ev_context = join [12290]
                  (map ((!) sentences) [i - 1 ..< min (length sentences) (i + 2)]),
                ev_sentence = sentences ! i\<rparr>,
              \<lparr>ev_source = TARGET_CHARACTER, ev_target = c2, ev_chapter = chapter_num,
                ev_type = interaction_type (sentences ! i),
                ev_context = join [12290]
                  (map ((!) sentences) [i - 1 ..< min (length sentences) (i + 2)]),
                ev_sentence = sentences ! i\<rparr>]
           @ sentence_loop sentences target_variants other_characters_dict chapter_num (Suc i)
               (drop (Suc i) sentences)
         \<and> c1 \<noteq> c2"
proof -
  let ?P = "\<lambda>(name, vs). name \<noteq> TARGET_CHARACTER \<and> any_in vs (sentences ! i)"
  let ?loop = "sentence_loop sentences target_variants other_characters_dict chapter_num"
  have "distinct (map fst (filter ?P other_characters_dict))"
    using assms(4) by (rule distinct_map_filter)
  with assms(5) have neq: "c1 \<noteq> c2" by simp
  from assms(5) obtain v1 v2 where two: "filter ?P other_characters_dict = [(c1, v1), (c2, v2)]"
    by (auto simp: map_eq_Cons_conv)
  have split: "sentences = take i sentences @ (sentences ! i) # drop (Suc i) sentences"
    using assms(2) by (simp add: id_take_nth_drop [symmetric])
  have "identify_interactions_advanced text target_variants other_characters_dict chapter_num =
          ?loop 0 sentences"
    by (simp add: identify_interactions_advanced_def Let_def assms(1))
  also have "\<dots> = ?loop 0 (take i sentences @ (sentences ! i) # drop (Suc i) sentences)"
    using split by simp
  also have "\<dots> = ?loop 0 (take i sentences)
        @ sentence_events sentences target_variants other_characters_dict chapter_num i (sentences ! i)
        @ ?loop (Suc i) (drop (Suc i) sentences)"
    using assms(2) by (simp add: sentence_loop_append min_absorb2)
  finally show ?thesis
    using assms(2,3) neq
    by (simp add: sentence_events_def character_loop_filter two context_of_range)
qed

theorem two_others_two_events_witness:
  "re_split sentence_delims sample_text = [[67], [37365, 65, 31505, 20358, 66], [65]] \<and>
   any_in [[37365]] ([[67], [37365, 65, 31505, 20358, 66], [65]] ! 1) \<and>
   distinct (map fst sample_dict) \<and>
   map fst (filter (\<lambda>(name, vs). name \<noteq> TARGET_CHARACTER \<and>
                      any_in vs ([[67], [37365, 65, 31505, 20358, 66], [65]] ! 1)) sample_dict)
     = [[65], [66]] \<and>
   identify_interactions_advanced sample_text [[37365]] sample_dict 5 =
     [\<lparr>ev_source = TARGET_CHARACTER, ev_target = [65], ev_chapter = 5, ev_type = TYPE_DIALOGUE,
       ev_context = [67, 12290, 37365, 65, 31505, 20358, 66, 12290, 65],
       ev_sentence = [37365, 65, 31505, 20358, 66]\<rparr>,
      \<lparr>ev_source = TARGET_CHARACTER, ev_target = [66], ev_chapter = 5, ev_type = TYPE_DIALOGUE,
       ev_context = [67, 12290, 37365, 65, 31505, 20358, 66, 12290, 65],
       ev_sentence = [37365, 65, 31505, 20358, 66]\<rparr>]"
proof -
  let ?ss = "[[67], [37365, 65, 31505, 20358, 66], [65::nat]]"
  have h1: "?ss = re_split sentence_delims sample_text"
    by (simp add: sample_text_def sentence_delims_def)
  have h2: "1 < length ?ss" by simp
  have h3: "any_in [[37365]] (?ss ! 1)" by (simp add: any_in_def)
  have h4: "distinct (map fst sample_dict)"
    by (simp add: sample_dict_def TARGET_CHARACTER_def)
  have h5: "map fst (filter (\<lambda>(name, vs). name \<noteq> TARGET_CHARACTER \<and> any_in vs (?ss ! 1))
              sample_dict) = [[65], [66]]"
    by (simp add: sample_dict_def TARGET_CHARACTER_def any_in_def)
  have t: "interaction_type [37365, 65, 31505, 20358, 66] = TYPE_DIALOGUE"
    by (simp add: interaction_type_def any_in_def dialogue_words_def)
  have "identify_interactions_advanced sample_text [[37365]] sample_dict 5 =
     [\<lparr>ev_source = TARGET_CHARACTER, ev_target = [65], ev_chapter = 5, ev_type = TYPE_DIALOGUE,
       ev_context = [67, 12290, 37365, 65, 31505, 20358, 66, 12290, 65],
       ev_sentence = [37365, 65, 31505, 20358, 66]\<rparr>,
      \<lparr>ev_source = TARGET_CHARACTER, ev_target = [66], ev_chapter = 5, ev_type = TYPE_DIALOGUE,
       ev_context = [67, 12290, 37365, 65, 31505, 20358, 66, 12290, 65],
       ev_sentence = [37365, 65, 31505, 20358, 66]\<rparr>]"
    using two_others_two_events [OF h1 h2 h3 h4 h5, of 5]
    by (simp add: t sentence_events_def any_in_def upt_rec numeral_2_eq_2)
  with h1 h3 h4 h5 show ?thesis by simp
qed

lemma re_split_nonempty: "re_split D text \<noteq> []"
  by (induction "text") (auto split: list.splits)

lemma re_split_length: "length (re_split D text) = Suc (length (filter (\<lambda>c. c \<in> set D) text))"
  by (induction "text") (auto split: list.splits simp: re_split_nonempty)

lemma re_split_no_delim: "s \<in> set (re_split D text) \<Longrightarrow> c \<in> set s \<Longrightarrow> c \<notin> set D"
proof (induction "text" arbitrary: s)
  case Nil
  then show ?case by simp
next
  case (Cons a cs)
  obtain r rs where r: "re_split D cs = r # rs"
    using re_split_nonempty [of D cs] by (cases "re_split D cs") auto
  show ?case
  proof (cases "a \<in> set D")
    case True
    with Cons.prems have "s = [] \<or> s \<in> set (re_split D cs)" by simp
    with Cons show ?thesis by auto
  next
    case False
    with Cons.prems r have "s = a # r \<or> s \<in> set rs" by simp
    then show ?thesis
    proof
      assume s: "s = a # r"
      have "r \<in> set (re_split D cs)" by (simp add: r)
      with Cons.IH [of r] Cons.prems(2) False s show ?thesis by auto
    next
      assume "s \<in> set rs"
      then have "s \<in> set (re_split D cs)" by (simp add: r)
      with Cons show ?thesis by blast
    qed
  qed
qed

lemma weave_Cons: "weave ((c # s) # ss) ds = c # weave (s # ss) ds"
  by (cases ds) simp_all

lemma re_split_weave: "weave (re_split D text) (filter (\<lambda>c. c \<in> set D) text) = text"
  by (induction "text") (auto split: list.splits simp: re_split_nonempty weave_Cons)

lemma re_split_empty_text: "re_split D [] = [[]]"
  by simp

text \<open>
  Claim C8 says that the segmenter produces non-empty sentence strings only. The source
  keeps every piece \<open>re.split\<close> returns: two delimiters in a row give an empty piece,
  which takes an index of its own in the sequence.
\<close>

theorem segmenter_keeps_empty_counterexample:
  "re_split sentence_delims [65, 12290, 12290, 66] = [[65], [], [66]]"
  by (simp add: sentence_delims_def)

text \<open>
  Claim C8, amended. For every chapter text, the segmenter produces an ordered sequence of
  sentence strings, empty ones included: one more string than the text has delimiters,
  none of them containing a delimiter, and such that the strings with the delimiters of
  the text put back between them, in order, are the text.
\<close>

theorem segmenter_fragments:
  "length (re_split sentence_delims text) =
     Suc (length (filter (\<lambda>c. c \<in> set sentence_delims) text)) \<and>
   (\<forall>s \<in> set (re_split sentence_delims text). \<forall>c \<in> set s. c \<notin> set sentence_delims) \<and>
   weave (re_split sentence_delims text) (filter (\<lambda>c. c \<in> set sentence_delims) text) = text"
  using re_split_no_delim [of _ sentence_delims "text"]
  by (auto simp: re_split_length re_split_weave)

theorem segmenter_fragments_witness:
  "length (re_split sentence_delims [65, 12290, 12290, 66]) = 3 \<and>
   filter (\<lambda>c. c \<in> set sentence_delims) [65, 12290, 12290, 66] = [12290, 12290] \<and>
   re_split sentence_delims [65, 12290, 12290, 66] = [[65], [], [66]] \<and>
   weave [[65], [], [66]] [12290, 12290] = [65, 12290, 12290, 66::nat]"
  using segmenter_fragments [of "[65, 12290, 12290, 66]"]
  by (simp add: sentence_delims_def)

section \<open>Properties of the graph builder\<close>

text \<open>One iteration of the loop of \<open>build_network\<close>.\<close>

lemma dict_modify_absent:
  "k \<notin> fst ` set d \<Longrightarrow> dict_modify dflt k f d = d @ [(k, f dflt)]"
  by (induction d) auto

lemma map_of_add_weight:
  "map_of (map (\<lambda>(k', x). if k' = k then (k', x + w) else (k', x)) es) k' =
     (if k' = k then map_option (\<lambda>x. x + w) (map_of es k') else map_of es k')"
  by (induction es) auto

lemma keys_add_weight:
  "map fst (map (\<lambda>(k', x). if k' = k then (k', x + (w::int)) else (k', x)) es) = map fst es"
  by (induction es) auto

lemma keys_add_weight_graph:
  "map fst (g_edges (add_weight G u v w)) = map fst (g_edges G)"
  by (simp add: add_weight_def keys_add_weight del: map_map)

lemma keys_add_edge_graph:
  "map fst (g_edges (add_edge G u v w)) =
     (if (u, v) \<in> set (map fst (g_edges G)) then map fst (g_edges G)
      else map fst (g_edges G) @ [(u, v)])"
  by (simp add: add_edge_def dict_modify_keys)

text \<open>The graph after one row, and its keys.\<close>

lemma build_loop_Cons:
  "build_loop G (r # rows) =
     build_loop (if has_edge G (Source r) (Target r)
                 then add_weight G (Source r) (Target r) (Frequency r)
                 else add_edge G (Source r) (Target r) (Frequency r)) rows"
  by (simp add: Let_def)

lemma step_keys:
  "set (map fst (g_edges (if has_edge G u v then add_weight G u v w else add_edge G u v w))) =
     insert (u, v) (set (map fst (g_edges G)))"
proof (cases "has_edge G u v")
  case True
  then have "(u, v) \<in> set (map fst (g_edges G))" by (simp add: has_edge_def)
  with True show ?thesis
    by (simp only: if_True keys_add_weight_graph insert_absorb)
next
  case False
  then have "(u, v) \<notin> set (map fst (g_edges G))" by (simp add: has_edge_def)
  with False show ?thesis
    by (simp only: if_False keys_add_edge_graph) simp
qed

lemma step_distinct:
  "distinct (map fst (g_edges G)) \<Longrightarrow>
   distinct (map fst (g_edges (if has_edge G u v then add_weight G u v w else add_edge G u v w)))"
  by (simp add: keys_add_weight_graph keys_add_edge_graph has_edge_def)

lemma load_data_loop_eq: "load_data_loop G rows = build_loop G rows"
  by (induction rows arbitrary: G) (simp_all add: Let_def)

lemma build_loop_keys:
  "set (map fst (g_edges (build_loop G rows))) =
     set (map fst (g_edges G)) \<union> (\<lambda>r. (Source r, Target r)) ` set rows"
proof (induction rows arbitrary: G)
  case Nil
  show ?case by simp
next
  case (Cons r rows)
  show ?case
    unfolding build_loop_Cons Cons.IH step_keys by auto
qed

lemma build_loop_distinct:
  "distinct (map fst (g_edges G)) \<Longrightarrow> distinct (map fst (g_edges (build_loop G rows)))"
proof (induction rows arbitrary: G)
  case Nil
  then show ?case by simp
next
  case (Cons r rows)
  show ?case
    unfolding build_loop_Cons
    by (rule Cons.IH) (rule step_distinct [OF Cons.prems])
qed

lemma build_loop_weight:
  "edge_weight (build_loop G rows) k =
     (case edge_weight G k of
        None \<Rightarrow> if rows_of k rows = [] then None else Some (total_frequency (rows_of k rows))
      | Some w \<Rightarrow> Some (w + total_frequency (rows_of k rows)))"
proof (induction rows arbitrary: G)
  case Nil
  show ?case by (simp add: rows_of_def total_frequency_def split: option.splits)
next
  case (Cons r rows)
  let ?G = "if has_edge G (Source r) (Target r)
            then add_weight G (Source r) (Target r) (Frequency r)
            else add_edge G (Source r) (Target r) (Frequency r)"
  have step: "edge_weight ?G k =
      (if k = (Source r, Target r)
       then Some (case edge_weight G k of None \<Rightarrow> Frequency r | Some w \<Rightarrow> w + Frequency r)
       else edge_weight G k)"
  proof (cases "has_edge G (Source r) (Target r)")
    case True
    then obtain w where "map_of (g_edges G) (Source r, Target r) = Some w"
      by (auto simp: has_edge_def dest: weak_map_of_SomeI)
    with True show ?thesis
      by (simp add: edge_weight_def add_weight_def map_of_add_weight)
  next
    case False
    then have "map_of (g_edges G) (Source r, Target r) = None"
      by (simp add: has_edge_def map_of_eq_None_iff)
    with False show ?thesis
      by (simp add: edge_weight_def add_edge_def map_of_dict_modify)
  qed
  have "edge_weight (build_loop G (r # rows)) k = edge_weight (build_loop ?G rows) k"
    by (simp only: build_loop_Cons)
  also have "\<dots> = (case edge_weight ?G k of
        None \<Rightarrow> if rows_of k rows = [] then None else Some (total_frequency (rows_of k rows))
      | Some w \<Rightarrow> Some (w + total_frequency (rows_of k rows)))"
    by (rule Cons.IH)
  also have "\<dots> = (case edge_weight G k of
        None \<Rightarrow> if rows_of k (r # rows) = [] then None
                else Some (total_frequency (rows_of k (r # rows)))
      | Some w \<Rightarrow> Some (w + total_frequency (rows_of k (r # rows))))"
    unfolding step by (auto simp: rows_of_def total_frequency_def split: option.splits)
  finally show ?case .
qed

lemma build_network_weight:
  "edge_weight (build_network rows) k =
     (if rows_of k rows = [] then None else Some (total_frequency (rows_of k rows)))"
proof -
  have "edge_weight empty_graph k = None"
    by (simp add: edge_weight_def empty_graph_def)
  then show ?thesis
    unfolding build_network_def build_loop_weight by simp
qed

lemma build_network_distinct: "distinct (map fst (g_edges (build_network rows)))"
  by (simp add: build_network_def build_loop_distinct empty_graph_def)

lemma build_network_keys:
  "fst ` set (g_edges (build_network rows)) = (\<lambda>r. (Source r, Target r)) ` set rows"
  using build_loop_keys [of empty_graph rows]
  by (simp add: build_network_def empty_graph_def)

lemma build_network_edge:
  "(k, w) \<in> set (g_edges (build_network rows)) \<longleftrightarrow>
     rows_of k rows \<noteq> [] \<and> w = total_frequency (rows_of k rows)"
proof -
  have "(k, w) \<in> set (g_edges (build_network rows)) \<longleftrightarrow>
        edge_weight (build_network rows) k = Some w"
    using build_network_distinct [of rows] by (simp add: edge_weight_def)
  then show ?thesis by (auto simp: build_network_weight)
qed

lemma sample_build:
  "build_network sample_rows =
     \<lparr>g_nodes = [TARGET_CHARACTER, [65], [66]],
      g_edges = [((TARGET_CHARACTER, [65]), 12), ((TARGET_CHARACTER, [66]), 2)]\<rparr>"
  by (simp add: build_network_def sample_rows_def empty_graph_def has_edge_def add_edge_def
      add_weight_def add_node_def TARGET_CHARACTER_def Let_def)

text \<open>
  Claim C3. For every input edge list, the graph builder produces exactly one edge per
  distinct (source, target) key of the list, and no other edge; the weight of the edge is
  the sum of the frequencies of the rows with that key. The loop of \<open>load_data\<close> builds
  the same graph. Two rows for one key with the frequencies 5 and 7 give one edge of
  weight 12.
\<close>

theorem build_network_sums:
  "distinct (map fst (g_edges (build_network rows))) \<and>
   fst ` set (g_edges (build_network rows)) = (\<lambda>r. (Source r, Target r)) ` set rows \<and>
   (\<forall>k w. (k, w) \<in> set (g_edges (build_network rows)) \<longrightarrow>
      w = sum_list (map Frequency (filter (\<lambda>r. (Source r, Target r) = k) rows))) \<and>
   load_data_graph rows = build_network rows"
proof (intro conjI allI impI)
  show "distinct (map fst (g_edges (build_network rows)))"
    by (rule build_network_distinct)
  show "fst ` set (g_edges (build_network rows)) = (\<lambda>r. (Source r, Target r)) ` set rows"
    by (rule build_network_keys)
  show "load_data_graph rows = build_network rows"
    by (simp add: load_data_graph_def build_network_def load_data_loop_eq)
next
  fix k w
  assume "(k, w) \<in> set (g_edges (build_network rows))"
  then show "w = sum_list (map Frequency (filter (\<lambda>r. (Source r, Target r) = k) rows))"
    by (simp add: build_network_edge rows_of_def total_frequency_def)
qed

theorem build_network_sums_witness:
  "g_edges (build_network
      [\<lparr>Source = TARGET_CHARACTER, Target = [65], Frequency = 5\<rparr>,
       \<lparr>Source = TARGET_CHARACTER, Target = [65], Frequency = 7\<rparr>])
     = [((TARGET_CHARACTER, [65]), 12)] \<and>
   sum_list (map Frequency (filter (\<lambda>r. (Source r, Target r) = (TARGET_CHARACTER, [65]))
      [\<lparr>Source = TARGET_CHARACTER, Target = [65], Frequency = 5\<rparr>,
       \<lparr>Source = TARGET_CHARACTER, Target = [65], Frequency = 7\<rparr>])) = 12"
proof -
  let ?rows = "[\<lparr>Source = TARGET_CHARACTER, Target = [65], Frequency = 5\<rparr>,
                \<lparr>Source = TARGET_CHARACTER, Target = [65], Frequency = 7\<rparr>]"
  have e: "g_edges (build_network ?rows) = [((TARGET_CHARACTER, [65]), 12)]"
    by (simp add: build_network_def empty_graph_def has_edge_def add_edge_def add_weight_def
        Let_def)
  then have m: "((TARGET_CHARACTER, [65]), 12) \<in> set (g_edges (build_network ?rows))"
    by simp
  from build_network_sums [of ?rows]
  have "\<forall>k w. (k, w) \<in> set (g_edges (build_network ?rows)) \<longrightarrow>
          w = sum_list (map Frequency (filter (\<lambda>r. (Source r, Target r) = k) ?rows))"
    by (elim conjE)
  from this [rule_format, OF m] e show ?thesis by simp
qed

lemma character_loop_targets:
  "e \<in> set (character_loop ss ch i s d) \<Longrightarrow>
     ev_source e = TARGET_CHARACTER \<and> ev_target e \<noteq> TARGET_CHARACTER"
  by (auto simp: character_loop_filter)

lemma sentence_loop_targets:
  "e \<in> set (sentence_loop ss tv d ch i xs) \<Longrightarrow>
     ev_source e = TARGET_CHARACTER \<and> ev_target e \<noteq> TARGET_CHARACTER"
proof (induction xs arbitrary: i)
  case Nil
  then show ?case by simp
next
  case (Cons x xs)
  from Cons.prems
  have "e \<in> set (sentence_events ss tv d ch i x) \<or> e \<in> set (sentence_loop ss tv d ch (Suc i) xs)"
    by simp
  then show ?case
  proof
    assume "e \<in> set (sentence_events ss tv d ch i x)"
    then have "e \<in> set (character_loop ss ch i x d)"
      by (simp add: sentence_events_def Let_def split: if_splits)
    then show ?thesis by (rule character_loop_targets)
  next
    assume "e \<in> set (sentence_loop ss tv d ch (Suc i) xs)"
    then show ?thesis by (rule Cons.IH)
  qed
qed

text \<open>
  Claim C2 says that the graph builder rejects an edge from a node to itself. It has no
  check at all: the edge is added.
\<close>

theorem self_loop_is_added_counterexample:
  "build_network self_loop_rows = \<lparr>g_nodes = [[65]], g_edges = [(([65], [65]), 3)]\<rparr>"
  by (simp add: build_network_def self_loop_rows_def empty_graph_def has_edge_def add_edge_def
      add_node_def Let_def)

text \<open>
  Claim C2, amended. For every input edge list, the graph builder rejects nothing and drops
  nothing: a row whose source equals its target is added to the graph as an edge from the
  node to itself, with the frequencies of the rows of that key summed as for any other
  edge. Self-loops are kept out upstream: the source of every event of the extractor is
  the focal character and its target is another one.
\<close>

theorem self_loops_are_added:
  "(\<forall>r \<in> set rows. Source r = Target r \<longrightarrow>
      has_edge (build_network rows) (Source r) (Source r) \<and>
      edge_weight (build_network rows) (Source r, Source r) =
        Some (sum_list (map Frequency
                (filter (\<lambda>r'. (Source r', Target r') = (Source r, Source r)) rows)))) \<and>
   (\<forall>e \<in> set (identify_interactions_advanced text target_variants other_characters_dict chapter_num).
      ev_source e \<noteq> ev_target e)"
proof (intro conjI ballI impI)
  fix r
  assume r: "r \<in> set rows" and loop: "Source r = Target r"
  then have ne: "rows_of (Source r, Source r) rows \<noteq> []"
    by (auto simp: rows_of_def filter_empty_conv)
  then have "(Source r, Source r) \<in> fst ` set (g_edges (build_network rows))"
    using r loop by (simp add: build_network_keys) force
  then show "has_edge (build_network rows) (Source r) (Source r)"
    by (simp add: has_edge_def)
  show "edge_weight (build_network rows) (Source r, Source r) =
        Some (sum_list (map Frequency
                (filter (\<lambda>r'. (Source r', Target r') = (Source r, Source r)) rows)))"
    using ne by (simp add: build_network_weight) (simp add: rows_of_def total_frequency_def)
next
  fix e
  assume "e \<in> set (identify_interactions_advanced text target_variants other_characters_dict chapter_num)"
  then have "ev_source e = TARGET_CHARACTER \<and> ev_target e \<noteq> TARGET_CHARACTER"
    by (simp add: identify_interactions_advanced_def Let_def sentence_loop_targets)
  then show "ev_source e \<noteq> ev_target e" by auto
qed

theorem self_loops_are_added_witness:
  "\<lparr>Source = [65], Target = [65], Frequency = 3\<rparr> \<in> set self_loop_rows \<and>
   has_edge (build_network self_loop_rows) [65] [65] \<and>
   edge_weight (build_network self_loop_rows) ([65], [65]) = Some 3 \<and>
   map ev_target (identify_interactions_advanced sample_text [[37365]] sample_dict 5) = [[65], [66]] \<and>
   map ev_source (identify_interactions_advanced sample_text [[37365]] sample_dict 5) =
     [TARGET_CHARACTER, TARGET_CHARACTER]"
proof -
  let ?r = "\<lparr>Source = [65], Target = [65], Frequency = 3\<rparr>"
  have r: "?r \<in> set self_loop_rows" by (simp add: self_loop_rows_def)
  have ev: "identify_interactions_advanced sample_text [[37365]] sample_dict 5 =
     [\<lparr>ev_source = TARGET_CHARACTER, ev_target = [65], ev_chapter = 5, ev_type = TYPE_DIALOGUE,
       ev_context = [67, 12290, 37365, 65, 31505, 20358, 66, 12290, 65],
       ev_sentence = [37365, 65, 31505, 20358, 66]\<rparr>,
      \<lparr>ev_source = TARGET_CHARACTER, ev_target = [66], ev_chapter = 5, ev_type = TYPE_DIALOGUE,
       ev_context = [67, 12290, 37365, 65, 31505, 20358, 66, 12290, 65],
       ev_sentence = [37365, 65, 31505, 20358, 66]\<rparr>]"
    by (simp add: identify_interactions_advanced_def sample_text_def sample_dict_def
        sentence_delims_def sentence_events_def any_in_def TARGET_CHARACTER_def
        interaction_type_def dialogue_words_def context_of_def py_slice_def
        numeral_2_eq_2 numeral_3_eq_3)
  from self_loops_are_added [of self_loop_rows sample_text "[[37365]]" sample_dict 5]
  have "\<forall>r \<in> set self_loop_rows. Source r = Target r \<longrightarrow>
      has_edge (build_network self_loop_rows) (Source r) (Source r) \<and>
      edge_weight (build_network self_loop_rows) (Source r, Source r) =
        Some (sum_list (map Frequency
                (filter (\<lambda>r'. (Source r', Target r') = (Source r, Source r)) self_loop_rows)))"
    by (elim conjE)
  from this [rule_format, OF r]
  have "has_edge (build_network self_loop_rows) [65] [65] \<and>
        edge_weight (build_network self_loop_rows) ([65], [65]) = Some 3"
    by (simp add: self_loop_rows_def)
  with r show ?thesis by (simp add: ev)
qed

section \<open>Properties of the metrics engine\<close>

text \<open>The weighted degree of a node of a graph whose edge keys are distinct.\<close>

lemma adj_member:
  "(v, w) \<in> set (adj G n) \<longleftrightarrow> ((n, v), w) \<in> set (g_edges G)"
  by (force simp: adj_def)

lemma out_filter: "filter (\<lambda>((u, v), w). u = n) es = filter (\<lambda>e. fst (fst e) = n) es"
  by (rule filter_cong) auto

lemma adj_keys:
  "map fst (adj G n) = map (\<lambda>e. snd (fst e)) (filter (\<lambda>e. fst (fst e) = n) (g_edges G))"
  unfolding adj_def out_filter by (simp add: case_prod_beta comp_def)

lemma adj_distinct:
  assumes "distinct (map fst (g_edges G))"
  shows "distinct (map fst (adj G n))"
proof -
  from assms have d: "distinct (g_edges G)" and i: "inj_on fst (set (g_edges G))"
    by (simp_all add: distinct_map)
  have "inj_on (\<lambda>e. snd (fst e)) (set (filter (\<lambda>e. fst (fst e) = n) (g_edges G)))"
  proof (rule inj_onI)
    fix e1 e2
    assume e1: "e1 \<in> set (filter (\<lambda>e. fst (fst e) = n) (g_edges G))"
      and e2: "e2 \<in> set (filter (\<lambda>e. fst (fst e) = n) (g_edges G))"
      and eq: "snd (fst e1) = snd (fst e2)"
    from e1 e2 have "fst (fst e1) = fst (fst e2)" by simp
    with eq have "fst e1 = fst e2" by (simp add: prod_eq_iff)
    with i e1 e2 show "e1 = e2" by (auto dest: inj_onD)
  qed
  with d show ?thesis by (simp add: adj_keys distinct_map)
qed

lemma sum_weights_lookup:
  "set vs \<subseteq> fst ` set (adj G n) \<Longrightarrow>
   sum_weights G n vs = Inr (sum_list (map (\<lambda>v. the (map_of (adj G n) v)) vs))"
proof (induction vs)
  case Nil
  show ?case by simp
next
  case (Cons v vs)
  from Cons.prems have "v \<in> fst ` set (adj G n)" by simp
  then obtain w where "map_of (adj G n) v = Some w"
    by (metis map_of_eq_None_iff not_Some_eq)
  with Cons show ?case by (simp add: weight_of_def)
qed

lemma lookup_all:
  "distinct (map fst al) \<Longrightarrow> map (\<lambda>v. the (map_of al v)) (map fst al) = map snd al"
proof (induction al)
  case Nil
  show ?case by simp
next
  case (Cons p al)
  obtain k x where p: "p = (k, x)" by (cases p)
  from Cons.prems p have k: "k \<notin> fst ` set al" by simp
  have "map (\<lambda>v. the (map_of ((k, x) # al) v)) (map fst al) =
        map (\<lambda>v. the (map_of al v)) (map fst al)"
    using k by (intro map_cong refl) auto
  with Cons p show ?case by simp
qed

lemma weighted_degree_eq:
  assumes "has_node G n" and "distinct (map fst (g_edges G))"
  shows "weighted_degree G n =
           Inr (sum_list (map snd (filter (\<lambda>e. fst (fst e) = n) (g_edges G))))"
proof -
  have d: "distinct (map fst (adj G n))"
    using assms(2) by (rule adj_distinct)
  have "weighted_degree G n = sum_weights G n (map fst (adj G n))"
    using assms(1) by (simp add: weighted_degree_def neighbors_def)
  also have "\<dots> = Inr (sum_list (map (\<lambda>v. the (map_of (adj G n) v)) (map fst (adj G n))))"
    by (rule sum_weights_lookup) simp
  also have "\<dots> = Inr (sum_list (map snd (adj G n)))"
    by (simp only: lookup_all [OF d])
  also have "map snd (adj G n) = map snd (filter (\<lambda>e. fst (fst e) = n) (g_edges G))"
    unfolding adj_def out_filter by (simp add: case_prod_beta comp_def)
  finally show ?thesis .
qed

lemma weighted_degree_absent: "\<not> has_node G n \<Longrightarrow> weighted_degree G n = Inl NetworkXError"
  by (simp add: weighted_degree_def neighbors_def)

text \<open>The sum of the weights of the edges that leave a node, along the building loop.\<close>

lemma add_weight_id:
  "k \<notin> fst ` set es \<Longrightarrow> map (\<lambda>(k', x). if k' = k then (k', x + (w::int)) else (k', x)) es = es"
  by (induction es) auto

lemma out_sum_add_weight:
  "distinct (map fst es) \<Longrightarrow> (u, v) \<in> fst ` set es \<Longrightarrow>
   sum_list (map snd (filter (\<lambda>e. fst (fst e) = n)
       (map (\<lambda>(k', x). if k' = (u, v) then (k', x + w) else (k', x)) es))) =
   sum_list (map snd (filter (\<lambda>e. fst (fst e) = n) es)) + (if u = n then w else (0::int))"
proof (induction es)
  case Nil
  then show ?case by simp
next
  case (Cons e es)
  obtain k x where e: "e = (k, x)" by (cases e)
  show ?case
  proof (cases "k = (u, v)")
    case True
    with Cons.prems e have "(u, v) \<notin> fst ` set es" by simp
    then have "map (\<lambda>(k', x). if k' = (u, v) then (k', x + w) else (k', x)) es = es"
      by (rule add_weight_id)
    then show ?thesis unfolding e True by simp
  next
    case False
    with Cons.prems e have "(u, v) \<in> fst ` set es" by auto
    with Cons.prems have "distinct (map fst es)" "(u, v) \<in> fst ` set es" by simp_all
    then have "sum_list (map snd (filter (\<lambda>e. fst (fst e) = n)
       (map (\<lambda>(k', x). if k' = (u, v) then (k', x + w) else (k', x)) es))) =
       sum_list (map snd (filter (\<lambda>e. fst (fst e) = n) es)) + (if u = n then w else 0)"
      by (rule Cons.IH)
    then show ?thesis unfolding e using False by (cases "u = n") simp_all
  qed
qed

lemma step_out_sum:
  assumes "distinct (map fst (g_edges G))"
  shows "sum_list (map snd (filter (\<lambda>e. fst (fst e) = n)
           (g_edges (if has_edge G u v then add_weight G u v w else add_edge G u v w)))) =
         sum_list (map snd (filter (\<lambda>e. fst (fst e) = n) (g_edges G))) +
           (if u = n then w else 0)"
proof (cases "has_edge G u v")
  case True
  then have "(u, v) \<in> fst ` set (g_edges G)" by (simp add: has_edge_def)
  from out_sum_add_weight [OF assms this, of n w] True show ?thesis
    by (simp add: add_weight_def)
next
  case False
  then have "(u, v) \<notin> fst ` set (g_edges G)" by (simp add: has_edge_def)
  then have "g_edges (add_edge G u v w) = g_edges G @ [((u, v), w)]"
    by (simp add: add_edge_def dict_modify_absent)
  with False show ?thesis by simp
qed

lemma build_loop_out_sum:
  "distinct (map fst (g_edges G)) \<Longrightarrow>
   sum_list (map snd (filter (\<lambda>e. fst (fst e) = n) (g_edges (build_loop G rows)))) =
     sum_list (map snd (filter (\<lambda>e. fst (fst e) = n) (g_edges G))) +
     sum_list (map Frequency (filter (\<lambda>r. Source r = n) rows))"
proof (induction rows arbitrary: G)
  case Nil
  show ?case by simp
next
  case (Cons r rows)
  let ?G = "if has_edge G (Source r) (Target r)
            then add_weight G (Source r) (Target r) (Frequency r)
            else add_edge G (Source r) (Target r) (Frequency r)"
  have d: "distinct (map fst (g_edges ?G))"
    by (rule step_distinct [OF Cons.prems])
  have "sum_list (map snd (filter (\<lambda>e. fst (fst e) = n) (g_edges (build_loop G (r # rows))))) =
        sum_list (map snd (filter (\<lambda>e. fst (fst e) = n) (g_edges (build_loop ?G rows))))"
    by (simp only: build_loop_Cons)
  also have "\<dots> = sum_list (map snd (filter (\<lambda>e. fst (fst e) = n) (g_edges ?G))) +
     sum_list (map Frequency (filter (\<lambda>r. Source r = n) rows))"
    by (rule Cons.IH [OF d])
  also have "sum_list (map snd (filter (\<lambda>e. fst (fst e) = n) (g_edges ?G))) =
     sum_list (map snd (filter (\<lambda>e. fst (fst e) = n) (g_edges G))) +
       (if Source r = n then Frequency r else 0)"
    by (rule step_out_sum [OF Cons.prems])
  finally show ?case by simp
qed

lemma build_network_weighted_degree:
  assumes "has_node (build_network rows) n"
  shows "weighted_degree (build_network rows) n =
           Inr (sum_list (map Frequency (filter (\<lambda>r. Source r = n) rows)))"
proof -
  have "sum_list (map snd (filter (\<lambda>e. fst (fst e) = n) (g_edges (build_network rows)))) =
        sum_list (map Frequency (filter (\<lambda>r. Source r = n) rows))"
    using build_loop_out_sum [of empty_graph n rows]
    by (simp add: build_network_def empty_graph_def)
  with weighted_degree_eq [OF assms build_network_distinct] show ?thesis by simp
qed

lemma calculate_returns:
  assumes "degree_centrality lib G = Inr dc" and "weighted_degree G n = Inr wd"
  shows "\<exists>m. calculate_centrality_metrics lib G n = Inr m \<and> m_weighted_degree m = wd \<and>
             m_degree_centrality m = get0 dc n \<and>
             m_betweenness_centrality m = try_metric (betweenness_centrality lib) G n \<and>
             m_closeness_centrality m = try_metric (closeness_centrality lib) G n \<and>
             m_eigenvector_centrality m = try_metric (eigenvector_centrality lib) G n \<and>
             m_pagerank m = try_metric (pagerank lib) G n \<and>
             m_clustering_coefficient m = try_metric (clustering lib) G n"
  using assms by (simp add: calculate_centrality_metrics_def Let_def split: prod.splits)

text \<open>
  Claim C9. For every graph built from an interaction table in which the focal character
  is a node, the metrics engine returns a record (given that the degree-centrality routine
  of the library, called outside any \<open>try\<close>, returns), and the weighted degree in it is
  the sum of the frequencies of all rows of the table whose source is the focal character.
\<close>

theorem focal_weighted_degree:
  assumes "has_node (build_network rows) focal"
    and "degree_centrality lib (build_network rows) = Inr dc"
  shows "\<exists>m. calculate_centrality_metrics lib (build_network rows) focal = Inr m \<and>
             m_weighted_degree m =
               sum_list (map Frequency (filter (\<lambda>r. Source r = focal) rows))"
  using calculate_returns [OF assms(2) build_network_weighted_degree [OF assms(1)]]
  by blast

theorem focal_weighted_degree_witness:
  "has_node (build_network sample_rows) TARGET_CHARACTER \<and>
   (\<exists>dc. degree_centrality sample_lib (build_network sample_rows) = Inr dc) \<and>
   (\<exists>m. calculate_centrality_metrics sample_lib (build_network sample_rows) TARGET_CHARACTER = Inr m \<and>
        m_weighted_degree m = 14) \<and>
   sum_list (map Frequency (filter (\<lambda>r. Source r = TARGET_CHARACTER) sample_rows)) = 14"
proof -
  have h1: "has_node (build_network sample_rows) TARGET_CHARACTER"
    by (simp add: sample_build has_node_def)
  have h2: "degree_centrality sample_lib (build_network sample_rows) =
            Inr (\<lambda>n. if n \<in> set (g_nodes (build_network sample_rows)) then Some 1 else None)"
    by (simp add: sample_lib_def)
  have s: "sum_list (map Frequency (filter (\<lambda>r. Source r = TARGET_CHARACTER) sample_rows)) = 14"
    by (simp add: sample_rows_def)
  from focal_weighted_degree [OF h1 h2] s
  have "\<exists>m. calculate_centrality_metrics sample_lib (build_network sample_rows) TARGET_CHARACTER = Inr m \<and>
        m_weighted_degree m = 14"
    by simp
  with h1 h2 s show ?thesis by blast
qed

text \<open>
  Without the focal character among the nodes, the weighted degree raises, and with it
  the whole of \<open>calculate_centrality_metrics\<close>, whatever the library does. The graph of
  an empty interaction table is such a graph.
\<close>

lemma calculate_raises_absent:
  "\<not> has_node G target_char \<Longrightarrow> calculate_centrality_metrics lib G target_char \<noteq> Inr m"
  by (simp add: calculate_centrality_metrics_def weighted_degree_absent Let_def
      split: sum.splits prod.splits)

lemma empty_table_raises:
  "calculate_centrality_metrics lib (build_network []) TARGET_CHARACTER \<noteq> Inr m"
  by (rule calculate_raises_absent) (simp add: build_network_def empty_graph_def has_node_def)

text \<open>
  In \<open>calculate_centrality_metrics\<close> each of the five routines called in a \<open>try\<close> of its
  own falls back to 0 by itself.
\<close>

lemma try_metric_failure: "routine G = Inl e \<Longrightarrow> try_metric routine G n = 0"
  by (simp add: try_metric_def)

lemma try_metric_success: "routine G = Inr d \<Longrightarrow> try_metric routine G n = get0 d n"
  by (simp add: try_metric_def)

text \<open>
  \<open>get_all_centrality_metrics\<close> never raises on a graph whose edges join nodes of the
  graph, but its three centralities share one \<open>try\<close>: when one routine fails, none of
  the three is reported, for any node.
\<close>

lemma node_loop_centralities:
  "node_loop G ns = Inr ms \<Longrightarrow> (n, m) \<in> set ms \<Longrightarrow> nm_centralities m = None"
  by (induction ns arbitrary: ms) (auto split: sum.splits)

lemma joint_centralities_all_or_nothing:
  assumes "betweenness_centrality lib G = Inl e \<or> closeness_centrality lib G = Inl e
           \<or> degree_centrality lib G = Inl e"
  shows "get_all_centrality_metrics lib G = node_loop G (g_nodes G)"
  using assms
  by (auto simp: get_all_centrality_metrics_def split: sum.splits)

lemma joint_failure_sample:
  "get_all_centrality_metrics sample_lib single_node_graph =
     Inr [([65], \<lparr>nm_degree = 0, nm_in_degree = 0, nm_out_degree = 0,
                  nm_weighted_degree = 0, nm_centralities = None\<rparr>)]"
  by (simp add: get_all_centrality_metrics_def sample_lib_def single_node_graph_def
      weighted_degree_def neighbors_def has_node_def adj_def in_degree_def out_degree_def)

text \<open>
  Claim C1 says that on a graph with one node and no edge every metric, the weighted
  degree of a focal character that is not a node included, comes back as its default and
  nothing is raised. On the graph whose only node is \<open>A\<close>, with the focal character of the
  source, \<open>calculate_centrality_metrics\<close> returns no record: it raises what the
  degree-centrality routine raises, or else the error of \<open>G.neighbors\<close> for a node that
  is not in the graph (lines 69-70 have no guard, unlike lines 57-62).
\<close>

theorem metrics_raise_without_focal_node:
  "calculate_centrality_metrics lib single_node_graph TARGET_CHARACTER =
     (case degree_centrality lib single_node_graph of
        Inl e \<Rightarrow> Inl e
      | Inr dc \<Rightarrow> Inl NetworkXError)"
  by (simp add: calculate_centrality_metrics_def weighted_degree_def neighbors_def
      has_node_def single_node_graph_def TARGET_CHARACTER_def split: sum.splits)

end
